theory Spec2Isabelle
  imports Complex_Main "HOL-Library.Word"
begin

section \<open>Bytes, strings and the runtime's primitives\<close>

text \<open>
  The program is a command-line tool that generates Ed25519 keys in worker threads until
  the address derived from a key starts and ends as the user asked. The source holds two
  versions of it; the one embedded here is the one whose workers report progress.

  A \<^verbatim>\<open>Uint8Array\<close> or \<^verbatim>\<open>Buffer\<close> is a list of bytes. A JavaScript string is a
  list of characters: every string the program builds itself is ASCII, and a prefix or
  suffix of the command line is covered as far as its characters are 8-bit ones.

  Two primitives come from libraries and are not part of the program: the digest
  \<^verbatim>\<open>createHash('sha3-256').update(b).digest()\<close> and the Ed25519 map from a private
  key to its public key. Every definition that calls one of them takes it as its first
  arguments (\<open>H\<close> for the digest, \<open>pub\<close> for the public key of a private key, both on
  raw bytes), so every theorem holds for whatever these functions are.
\<close>

type_synonym byte = "8 word"
type_synonym bytes = "byte list"
type_synonym digest = "bytes \<Rightarrow> bytes"
type_synonym pubkey = "bytes \<Rightarrow> bytes"

text \<open>
  An optional string of the command line (\<^verbatim>\<open>prefix?: string\<close>): \<open>None\<close> is
  \<^verbatim>\<open>undefined\<close>. In a condition JavaScript takes \<^verbatim>\<open>undefined\<close> and the empty
  string as false and every other string as true.
\<close>

fun truthy :: "string option \<Rightarrow> bool" where
  "truthy None = False"
| "truthy (Some s) = (s \<noteq> [])"

text \<open>\<^verbatim>\<open>s.startsWith(p)\<close> and \<^verbatim>\<open>s.endsWith(p)\<close>: position-wise, case-sensitive.\<close>

definition startsWith :: "string \<Rightarrow> string \<Rightarrow> bool" where
  "startsWith s p = (take (length p) s = p)"

definition endsWith :: "string \<Rightarrow> string \<Rightarrow> bool" where
  "endsWith s p = (length p \<le> length s \<and> drop (length s - length p) s = p)"

subsection \<open>Hexadecimal rendering\<close>

text \<open>The digits \<^verbatim>\<open>Number.prototype.toString(16)\<close> writes.\<close>

definition hexDigits :: string where
  "hexDigits = ''0123456789abcdef''"

definition hexDigit :: "nat \<Rightarrow> char" where
  "hexDigit d = hexDigits ! (d mod 16)"

text \<open>\<^verbatim>\<open>n.toString(16)\<close> for a non-negative integer: no leading zero, \<open>''0''\<close> for 0.\<close>

fun toString16 :: "nat \<Rightarrow> string" where
  "toString16 n = (if n < 16 then [hexDigit n] else toString16 (n div 16) @ [hexDigit (n mod 16)])"

declare toString16.simps [simp del]

text \<open>\<^verbatim>\<open>s.padStart(k, c)\<close> for a one-character filler.\<close>

definition padStart :: "nat \<Rightarrow> char \<Rightarrow> string \<Rightarrow> string" where
  "padStart k c s = replicate (k - length s) c @ s"

text \<open>
  \<^verbatim>\<open>
  function bytesToHex(bytes: Uint8Array): string {
    return Array.from(bytes)
      .map(b => b.toString(16).padStart(2, '0'))
      .join('');
  }
  \<close>
\<close>

definition bytesToHex :: "bytes \<Rightarrow> string" where
  "bytesToHex bs = concat (map (\<lambda>b. padStart 2 (CHR ''0'') (toString16 (unat b))) bs)"

subsection \<open>Decoding hexadecimal: \<^verbatim>\<open>Buffer.from(s, 'hex')\<close>\<close>

text \<open>
  Node decodes two characters at a time into one byte, accepts digits and letters of
  either case, and stops silently at the first pair that is not hexadecimal; a single
  character left at the end is dropped.
\<close>

definition unhex :: "char \<Rightarrow> nat option" where
  "unhex c =
     (let n = of_char c :: nat in
      if 48 \<le> n \<and> n \<le> 57 then Some (n - 48)
      else if 97 \<le> n \<and> n \<le> 102 then Some (n - 87)
      else if 65 \<le> n \<and> n \<le> 70 then Some (n - 55)
      else None)"

fun Buffer_from_hex :: "string \<Rightarrow> bytes" where
  "Buffer_from_hex (a # b # rest) =
     (case (unhex a, unhex b) of
        (Some x, Some y) \<Rightarrow> of_nat (16 * x + y) # Buffer_from_hex rest
      | _ \<Rightarrow> [])"
| "Buffer_from_hex _ = []"

text \<open>\<^verbatim>\<open>Buffer.from(s)\<close> for an ASCII string: one byte per character.\<close>

definition Buffer_from_string :: "string \<Rightarrow> bytes" where
  "Buffer_from_string s = map (\<lambda>c. of_nat (of_char c)) s"

text \<open>\<^verbatim>\<open>n.toString(16)\<close> for a \<^verbatim>\<open>bigint\<close>: a minus sign before the digits of a negative one.\<close>

definition bigint_toString16 :: "int \<Rightarrow> string" where
  "bigint_toString16 n = (if n < 0 then CHR ''-'' # toString16 (nat (- n)) else toString16 (nat n))"

section \<open>Address derivation\<close>

text \<open>
  \<^verbatim>\<open>
  function authKeyBytesVec(privateKey: Ed25519PrivateKey): Uint8Array {
    const publicKey = privateKey.publicKey().toUint8Array();
    const withScheme = new Uint8Array([...publicKey, 0x00]);
    return createHash('sha3-256').update(withScheme).digest();
  }
  \<close>
  A private key is represented by its bytes (\<^verbatim>\<open>privateKey.toUint8Array()\<close>).
\<close>

definition authKeyBytesVec :: "digest \<Rightarrow> pubkey \<Rightarrow> bytes \<Rightarrow> bytes" where
  "authKeyBytesVec H pub privateKey =
     (let publicKey = pub privateKey;
          withScheme = publicKey @ [0x00]
      in H withScheme)"

text \<open>
  \<^verbatim>\<open>
  const SEQUENCE_NUMBER_MULTISIG = 0n;

  function createMultisigAccountAddress(creator: Uint8Array, creatorNonce: bigint): Uint8Array {
    const seed = Buffer.from('aptos_framework::multisig_account');
    const nonceBytes = Buffer.from(creatorNonce.toString(16), 'hex');
    const combined = Buffer.concat([creator, seed, nonceBytes, Buffer.from([255])]);
    return createHash('sha3-256').update(combined).digest();
  }
  \<close>
\<close>

definition SEQUENCE_NUMBER_MULTISIG :: int where
  "SEQUENCE_NUMBER_MULTISIG = 0"

definition multisig_seed :: bytes where
  "multisig_seed = Buffer_from_string ''aptos_framework::multisig_account''"

definition nonceBytes :: "int \<Rightarrow> bytes" where
  "nonceBytes creatorNonce = Buffer_from_hex (bigint_toString16 creatorNonce)"

definition createMultisigAccountAddress :: "digest \<Rightarrow> bytes \<Rightarrow> int \<Rightarrow> bytes" where
  "createMultisigAccountAddress H creator creatorNonce =
     (let seed = multisig_seed;
          combined = creator @ seed @ nonceBytes creatorNonce @ [255]
      in H combined)"

section \<open>Estimation\<close>

text \<open>
  A JavaScript number is an IEEE double: a finite double is the real number it denotes,
  and there are the two infinities and NaN.
\<close>

datatype number = Fin real | PosInf | NegInf | NaN

text \<open>\<^verbatim>\<open>x < c\<close> for a finite constant \<open>c\<close>: false on NaN.\<close>

fun number_less :: "number \<Rightarrow> real \<Rightarrow> bool" where
  "number_less (Fin x) c = (x < c)"
| "number_less NegInf c = True"
| "number_less PosInf c = False"
| "number_less NaN c = False"

text \<open>
  \<^verbatim>\<open>16 ** m\<close> for a length \<open>m\<close>: the power of two \<open>2 ^ (4 * m)\<close>, a double as long as
  \<open>4 * m \<le> 1023\<close>, and \<^verbatim>\<open>Infinity\<close> beyond.
\<close>

definition pow16 :: "nat \<Rightarrow> number" where
  "pow16 m = (if m \<le> 255 then Fin (16 ^ m) else PosInf)"

text \<open>
  Division where the quotient is a double and so is not rounded, as it is when a double
  is divided by a power of two within range; division of a finite number by an
  infinity is zero, and by zero an infinity of the dividend's sign.
\<close>

fun number_divide :: "number \<Rightarrow> number \<Rightarrow> number" where
  "number_divide (Fin a) (Fin b) =
     (if b = 0 then (if 0 < a then PosInf else if a < 0 then NegInf else NaN) else Fin (a / b))"
| "number_divide (Fin a) PosInf = Fin 0"
| "number_divide (Fin a) NegInf = Fin 0"
| "number_divide PosInf (Fin b) = (if 0 \<le> b then PosInf else NegInf)"
| "number_divide NegInf (Fin b) = (if 0 \<le> b then NegInf else PosInf)"
| "number_divide _ _ = NaN"

fun Math_ceil :: "number \<Rightarrow> number" where
  "Math_ceil (Fin x) = Fin (of_int \<lceil>x\<rceil>)"
| "Math_ceil x = x"

text \<open>
  \<^verbatim>\<open>
  function formatDuration(seconds: number): string {
    if (seconds < 0.1) return `~${(seconds * 1000).toFixed(0)} milliseconds`;
    if (seconds < 60) return `~${Math.ceil(seconds)} seconds`;
    if (seconds < 3600) return `~${Math.ceil(seconds / 60)} minutes`;
    if (seconds < 86400) return `~${(seconds / 3600).toFixed(1)} hours`;
    return `~${(seconds / 86400).toFixed(1)} days`;
  }
  \<close>
  The text returned is kept as the template chosen and the seconds it renders; every
  one of the five templates starts with \<^verbatim>\<open>~\<close>.
\<close>

datatype duration_text =
    Milliseconds number
  | Seconds number
  | Minutes number
  | Hours number
  | Days number

definition formatDuration :: "number \<Rightarrow> duration_text" where
  "formatDuration seconds =
     (if number_less seconds (1 / 10) then Milliseconds seconds
      else if number_less seconds 60 then Seconds seconds
      else if number_less seconds 3600 then Minutes seconds
      else if number_less seconds 86400 then Hours seconds
      else Days seconds)"

text \<open>
  \<^verbatim>\<open>
  async function calculateEstimate(prefix?: string, suffix?: string, threadCount: number = 1) {
    if (!prefix && !suffix) return 'Should be instant';
    const matchNeeded = (prefix?.length || 0) + (suffix?.length || 0);
    const probabilityPerTry = 1 / (16 ** matchNeeded);
    const attemptsNeeded = Math.ceil(-Math.log(0.05) / probabilityPerTry);
    const genPerSecondSingleThread = await benchmarkPerformance();
    const genPerSecondTotal = genPerSecondSingleThread * threadCount;
    const seconds = attemptsNeeded / genPerSecondTotal;
    return formatDuration(seconds);
  }
  \<close>
  \<open>L\<close> is the double that \<^verbatim>\<open>-Math.log(0.05)\<close> evaluates to. The benchmark measures
  wall-clock time, so the division of the attempts by the measured total rate is a
  parameter \<open>per_rate\<close>.
\<close>

datatype estimate = Should_be_instant | Formatted duration_text

definition optional_length :: "string option \<Rightarrow> nat" where
  "optional_length s = (case s of None \<Rightarrow> 0 | Some t \<Rightarrow> length t)"

definition matchNeeded :: "string option \<Rightarrow> string option \<Rightarrow> nat" where
  "matchNeeded prefix suffix = optional_length prefix + optional_length suffix"

definition probabilityPerTry :: "nat \<Rightarrow> number" where
  "probabilityPerTry m = number_divide (Fin 1) (pow16 m)"

definition attemptsNeeded :: "real \<Rightarrow> string option \<Rightarrow> string option \<Rightarrow> number" where
  "attemptsNeeded L prefix suffix =
     Math_ceil (number_divide (Fin L) (probabilityPerTry (matchNeeded prefix suffix)))"

definition calculateEstimate ::
  "real \<Rightarrow> (number \<Rightarrow> number) \<Rightarrow> string option \<Rightarrow> string option \<Rightarrow> estimate" where
  "calculateEstimate L per_rate prefix suffix =
     (if \<not> truthy prefix \<and> \<not> truthy suffix then Should_be_instant
      else Formatted (formatDuration (per_rate (attemptsNeeded L prefix suffix))))"

section \<open>The worker\<close>

text \<open>
  The configuration a worker receives (\<^verbatim>\<open>workerData\<close>), and the command line
  (\<^verbatim>\<open>CliArgs\<close>), which has the same three fields and two more. The option parser
  checks neither number; \<open>count\<close> is the integer that the comparison
  \<^verbatim>\<open>foundCount >= args.count\<close> reads, which may be zero or negative.
\<close>

record workerData =
  prefix :: "string option"
  suffix :: "string option"
  multisig :: bool

record CliArgs = workerData +
  count :: int
  threads :: nat

text \<open>
  What a worker posts to the main thread: \<^verbatim>\<open>{ type: 'progress', count }\<close> or
  \<^verbatim>\<open>{ type: 'result', address, privateKey, multisigAddress }\<close>, the fields in this
  order.
\<close>

datatype message =
    is_Progress: Progress nat
  | is_Result: Result string string "string option"

text \<open>
  \<^verbatim>\<open>
  let localGenCount = 0;
  const generateKey = async () => {
    while (true) {
      localGenCount++;
      if (localGenCount % 1000 === 0) {
        parentPort?.postMessage({ type: 'progress', count: 1000 });
      }
      const privateKey = Ed25519PrivateKey.generate();
      const accountAddressBytes = authKeyBytesVec(privateKey);
      const searchBytes = multisig
        ? createMultisigAccountAddress(accountAddressBytes, SEQUENCE_NUMBER_MULTISIG)
        : accountAddressBytes;
      const address = bytesToHex(searchBytes);
      if (prefix && !address.startsWith(prefix)) continue;
      if (suffix && !address.endsWith(suffix)) continue;
      parentPort?.postMessage({
        type: 'result',
        address,
        privateKey: bytesToHex(privateKey.toUint8Array()),
        multisigAddress: multisig ? address : undefined
      });
    }
  };
  \<close>
  One pass of the loop body takes the counter and the key that
  \<^verbatim>\<open>Ed25519PrivateKey.generate()\<close> returns in this pass, and gives the new counter and the
  messages posted, in order. The counter is a natural number: a JavaScript number counts
  exactly up to \<open>2 ^ 53\<close>, far more passes than a worker can run.
\<close>

definition rejects_prefix :: "string option \<Rightarrow> string \<Rightarrow> bool" where
  "rejects_prefix p a = (case p of None \<Rightarrow> False | Some t \<Rightarrow> t \<noteq> [] \<and> \<not> startsWith a t)"

definition rejects_suffix :: "string option \<Rightarrow> string \<Rightarrow> bool" where
  "rejects_suffix p a = (case p of None \<Rightarrow> False | Some t \<Rightarrow> t \<noteq> [] \<and> \<not> endsWith a t)"

definition searchAddress :: "digest \<Rightarrow> pubkey \<Rightarrow> workerData \<Rightarrow> bytes \<Rightarrow> string" where
  "searchAddress H pub wd privateKey =
     (let accountAddressBytes = authKeyBytesVec H pub privateKey;
          searchBytes =
            (if multisig wd
             then createMultisigAccountAddress H accountAddressBytes SEQUENCE_NUMBER_MULTISIG
             else accountAddressBytes)
      in bytesToHex searchBytes)"

definition generateKey_pass ::
  "digest \<Rightarrow> pubkey \<Rightarrow> workerData \<Rightarrow> nat \<Rightarrow> bytes \<Rightarrow> nat \<times> message list" where
  "generateKey_pass H pub wd localGenCount privateKey =
     (let n = localGenCount + 1;
          progress = (if n mod 1000 = 0 then [Progress 1000] else []);
          address = searchAddress H pub wd privateKey
      in if rejects_prefix (prefix wd) address then (n, progress)
         else if rejects_suffix (suffix wd) address then (n, progress)
         else (n, progress @
                [Result address (bytesToHex privateKey)
                   (if multisig wd then Some address else None)]))"

text \<open>
  The loop never ends by itself. \<open>generateKey H pub wd n keys\<close> is the counter and the
  messages posted after one pass for each key of \<open>keys\<close>, the keys generated so far,
  starting from the counter \<open>n\<close> (0 when the worker starts).
\<close>

fun generateKey ::
  "digest \<Rightarrow> pubkey \<Rightarrow> workerData \<Rightarrow> nat \<Rightarrow> bytes list \<Rightarrow> nat \<times> message list" where
  "generateKey H pub wd n [] = (n, [])"
| "generateKey H pub wd n (privateKey # keys) =
     (let (n', posted) = generateKey_pass H pub wd n privateKey;
          (n'', later) = generateKey H pub wd n' keys
      in (n'', posted @ later))"

section \<open>The main thread\<close>

text \<open>
  Console output is kept line by line, each line as the template printed and the values
  it interpolates; rates and times are kept as the operands of the division printed.
  The two counters are natural numbers, times are integers of milliseconds.
\<close>

datatype console =
    Banner_benchmarking
  | Banner_estimate estimate
  | Banner_generating
  | Progress_line nat int
  | Blank
  | Multisig_account_address string
  | Standard_account_address string
  | is_Private_key: Private_key string
  | Final_generation_rate nat int
  | Elapsed_time int
  | Total_addresses_generated nat

record main_state =
  startTime :: int
  foundCount :: nat
  totalGenerated :: nat
  lastUpdateTime :: int
  stdout :: "console list"
  exitCode :: "int option"

text \<open>
  \<^verbatim>\<open>
  const args = parseArgs();
  const startTime = Date.now();
  let foundCount = 0;
  let totalGenerated = 0;
  let lastUpdateTime = Date.now();
  console.log(`Benchmarking system performance...`);
  console.log(`Estimated time: ${await calculateEstimate(args.prefix, args.suffix, args.threads)}`);
  console.log('Generating addresses...\n');
  const workers = Array.from({ length: args.threads }, () =>
    new Worker(__filename, { workerData: { prefix: args.prefix, suffix: args.suffix, multisig: args.multisig } }));
  \<close>
  \<open>t0\<close> and \<open>t1\<close> are the two readings of the clock, in milliseconds.
\<close>

definition main_start :: "real \<Rightarrow> (number \<Rightarrow> number) \<Rightarrow> CliArgs \<Rightarrow> int \<Rightarrow> int \<Rightarrow> main_state" where
  "main_start L per_rate args t0 t1 =
     \<lparr>startTime = t0, foundCount = 0, totalGenerated = 0, lastUpdateTime = t1,
      stdout = [Banner_benchmarking,
                Banner_estimate (calculateEstimate L per_rate (prefix args) (suffix args)),
                Banner_generating],
      exitCode = None\<rparr>"

definition spawn_workerData :: "CliArgs \<Rightarrow> workerData" where
  "spawn_workerData args = \<lparr>prefix = prefix args, suffix = suffix args, multisig = multisig args\<rparr>"

text \<open>
  \<^verbatim>\<open>
  worker.on('message', (message) => {
    if (message.type === 'progress') {
      totalGenerated += message.count;
      const currentTime = Date.now();
      if (currentTime - lastUpdateTime >= 1000) {
        const elapsedSeconds = (currentTime - startTime) / 1000;
        const genPerSecond = Math.floor(totalGenerated / elapsedSeconds);
        process.stdout.write(`\rGenerating... ${genPerSecond.toLocaleString()} addresses per second`);
        lastUpdateTime = currentTime;
      }
    } else if (message.type === 'result') {
      process.stdout.write('\n');
      foundCount++;
      if (message.multisigAddress) {
        console.log(`Multisig account address: 0x${message.multisigAddress}`);
        console.log(`Standard account address: 0x${message.address}`);
      } else {
        console.log(`Standard account address: 0x${message.address}`);
      }
      console.log(`Private key:              0x${message.privateKey}\n`);
      if (foundCount >= args.count) {
        const elapsedSeconds = (Date.now() - startTime) / 1000;
        const finalGenPerSecond = Math.floor(totalGenerated / elapsedSeconds);
        console.log(`Final generation rate: ${finalGenPerSecond.toLocaleString()} addresses/second`);
        console.log(`Elapsed time: ${elapsedSeconds}s`);
        console.log(`Total addresses generated: ${totalGenerated.toLocaleString()}`);
        process.exit(0);
      }
    }
  });
  \<close>
  The handler runs once for each message, with the reading \<open>now\<close> of the clock that
  \<^verbatim>\<open>Date.now()\<close> gives in this run.
\<close>

definition print :: "console list \<Rightarrow> main_state \<Rightarrow> main_state" where
  "print ls st = st\<lparr>stdout := stdout st @ ls\<rparr>"

definition on_progress :: "nat \<Rightarrow> int \<Rightarrow> main_state \<Rightarrow> main_state" where
  "on_progress c now st =
     (let st1 = st\<lparr>totalGenerated := totalGenerated st + c\<rparr>;
          currentTime = now
      in if currentTime - lastUpdateTime st1 \<ge> 1000
         then (print [Progress_line (totalGenerated st1) (currentTime - startTime st1)] st1)
                \<lparr>lastUpdateTime := currentTime\<rparr>
         else st1)"

definition on_result ::
  "CliArgs \<Rightarrow> string \<Rightarrow> string \<Rightarrow> string option \<Rightarrow> int \<Rightarrow> main_state \<Rightarrow> main_state" where
  "on_result args address privateKey multisigAddress now st =
     (let st1 = (print [Blank] st)\<lparr>foundCount := foundCount st + 1\<rparr>;
          st2 = (if truthy multisigAddress
                 then print [Multisig_account_address (the multisigAddress),
                             Standard_account_address address] st1
                 else print [Standard_account_address address] st1);
          st3 = print [Private_key privateKey] st2
      in if int (foundCount st3) \<ge> count args
         then (print [Final_generation_rate (totalGenerated st3) (now - startTime st3),
                      Elapsed_time (now - startTime st3),
                      Total_addresses_generated (totalGenerated st3)] st3)
                \<lparr>exitCode := Some 0\<rparr>
         else st3)"

fun on_message :: "CliArgs \<Rightarrow> main_state \<Rightarrow> message \<times> int \<Rightarrow> main_state" where
  "on_message args st (Progress c, now) = on_progress c now st"
| "on_message args st (Result address privateKey multisigAddress, now) =
     on_result args address privateKey multisigAddress now st"

text \<open>
  The messages of all workers reach the main thread one at a time. \<^verbatim>\<open>process.exit(0)\<close>
  ends the process, workers included: no message after it is handled.
\<close>

fun main_loop :: "CliArgs \<Rightarrow> main_state \<Rightarrow> (message \<times> int) list \<Rightarrow> main_state" where
  "main_loop args st [] = st"
| "main_loop args st (e # es) =
     (let st' = on_message args st e
      in if exitCode st' \<noteq> None then st' else main_loop args st' es)"

section \<open>Notions the properties are stated with\<close>



text \<open>
  The match predicate in the words of the specification: no prefix given or the address
  starts with it, and no suffix given or the address ends with it.
\<close>

definition matches :: "string \<Rightarrow> string option \<Rightarrow> string option \<Rightarrow> bool" where
  "matches addressHex p s =
     ((case p of None \<Rightarrow> True | Some t \<Rightarrow> startsWith addressHex t) \<and>
      (case s of None \<Rightarrow> True | Some t \<Rightarrow> endsWith addressHex t))"

text \<open>The result messages among the messages posted, and how many progress messages.\<close>

definition results :: "message list \<Rightarrow> message list" where
  "results ms = filter is_Result ms"

definition progress_count :: "message list \<Rightarrow> nat" where
  "progress_count ms = length (filter is_Progress ms)"

text \<open>A message that some pass of some worker posts.\<close>

definition worker_event :: "message \<Rightarrow> bool" where
  "worker_event m =
     (\<exists>H pub wd n privateKey. m \<in> set (snd (generateKey_pass H pub wd n privateKey)))"

text \<open>The messages the main thread handles: those up to the one at which it exits.\<close>

fun handled :: "CliArgs \<Rightarrow> main_state \<Rightarrow> (message \<times> int) list \<Rightarrow> (message \<times> int) list" where
  "handled args st [] = []"
| "handled args st (e # es) =
     (let st' = on_message args st e
      in if exitCode st' \<noteq> None then [e] else e # handled args st' es)"

text \<open>
  Stand-ins for the two library primitives, for evaluating the definitions at concrete
  inputs: a 32-byte value cut from the reversed input padded with zero bytes, and the
  private key's bytes themselves.
\<close>

definition sample_digest :: digest where
  "sample_digest b = take 32 (rev b @ replicate 32 0)"

definition sample_pub :: pubkey where
  "sample_pub privateKey = privateKey"

section \<open>Hexadecimal text\<close>

lemma hexDigit_in: "hexDigit d \<in> set hexDigits"
  unfolding hexDigit_def by (rule nth_mem) (simp add: hexDigits_def)

lemma byte_text: "n < 256 \<Longrightarrow> padStart 2 (CHR ''0'') (toString16 n) = [hexDigit (n div 16), hexDigit n]"
proof (cases "n < 16")
  case True
  then show ?thesis
    by (simp add: toString16.simps [of n] padStart_def hexDigit_def hexDigits_def)
next
  case False
  assume "n < 256"
  then have "n div 16 < 16" by simp
  with False show ?thesis
    by (simp add: toString16.simps [of n] toString16.simps [of "n div 16"] padStart_def hexDigit_def)
qed

lemma bytesToHex_Nil: "bytesToHex [] = []"
  by (simp add: bytesToHex_def)

lemma bytesToHex_Cons:
  "bytesToHex (b # bs) = hexDigit (unat b div 16) # hexDigit (unat b) # bytesToHex bs"
proof -
  have "unat b < 256" using unsigned_less [of b] by simp
  then show ?thesis by (simp add: bytesToHex_def byte_text)
qed

lemma set_bytesToHex: "set (bytesToHex bs) \<subseteq> set hexDigits"
  by (induction bs) (simp_all add: bytesToHex_Nil bytesToHex_Cons hexDigit_in)

lemma unhex_digits: "list_all (\<lambda>k. unhex (hexDigits ! k) = Some k) [0..<16]"
  by code_simp

lemma unhex_hexDigit: "unhex (hexDigit d) = Some (d mod 16)"
proof -
  have "d mod 16 \<in> set [0..<16]" by simp
  with unhex_digits show ?thesis
    unfolding hexDigit_def list_all_iff by blast
qed

lemma Buffer_from_hex_bytesToHex: "Buffer_from_hex (bytesToHex bs) = bs"
proof (induction bs)
  case Nil
  show ?case by (simp add: bytesToHex_Nil)
next
  case (Cons b bs)
  have "unat b < 256" using unsigned_less [of b] by simp
  then have "unat b div 16 < 16" by simp
  then have "16 * (unat b div 16 mod 16) + unat b mod 16 = unat b" by simp
  then have "(of_nat (16 * (unat b div 16 mod 16) + unat b mod 16) :: byte) = b"
    by (simp only: of_nat_unat unsigned_word_eqI ucast_id)
  with Cons show ?case by (simp add: bytesToHex_Cons unhex_hexDigit del: of_nat_add of_nat_mult)
qed

section \<open>The worker's messages\<close>

lemma startsWith_Nil: "startsWith a []"
  by (simp add: startsWith_def)

lemma endsWith_Nil: "endsWith a []"
  by (simp add: endsWith_def)

lemma accepts_matches:
  "(\<not> rejects_prefix p a \<and> \<not> rejects_suffix s a) = matches a p s"
  by (auto simp: rejects_prefix_def rejects_suffix_def matches_def startsWith_Nil endsWith_Nil
      split: option.splits)

lemma pass_counter: "fst (generateKey_pass H pub wd n k) = n + 1"
  by (simp add: generateKey_pass_def Let_def)

lemma pass_progress:
  "filter is_Progress (snd (generateKey_pass H pub wd n k)) =
     (if (n + 1) mod 1000 = 0 then [Progress 1000] else [])"
  by (simp add: generateKey_pass_def Let_def)

lemma pass_results:
  "results (snd (generateKey_pass H pub wd n k)) =
     (if matches (searchAddress H pub wd k) (prefix wd) (suffix wd)
      then [Result (searchAddress H pub wd k) (bytesToHex k)
              (if multisig wd then Some (searchAddress H pub wd k) else None)]
      else [])"
  by (simp add: generateKey_pass_def Let_def results_def accepts_matches [symmetric])

lemma generateKey_counter: "fst (generateKey H pub wd n keys) = n + length keys"
  by (induction keys arbitrary: n) (simp_all add: split_beta Let_def pass_counter)

lemma generateKey_snd_Cons:
  "snd (generateKey H pub wd n (k # keys)) =
     snd (generateKey_pass H pub wd n k) @ snd (generateKey H pub wd (n + 1) keys)"
  using pass_counter [of H pub wd n k] by (simp add: split_beta Let_def)

lemma div_step: "(n + 1) div 1000 = n div 1000 + (if (n + 1) mod 1000 = 0 then 1 else 0)" for n :: nat
  by (simp add: div_Suc)

lemma generateKey_progress:
  "filter is_Progress (snd (generateKey H pub wd n keys)) =
     replicate ((n + length keys) div 1000 - n div 1000) (Progress 1000)"
proof (induction keys arbitrary: n)
  case Nil
  show ?case by simp
next
  case (Cons k keys)
  have le: "(n + 1) div 1000 \<le> (n + 1 + length keys) div 1000"
    by (rule div_le_mono) simp
  have "filter is_Progress (snd (generateKey H pub wd n (k # keys))) =
      (if (n + 1) mod 1000 = 0 then [Progress 1000] else []) @
      replicate ((n + 1 + length keys) div 1000 - (n + 1) div 1000) (Progress 1000)"
    by (simp only: generateKey_snd_Cons filter_append pass_progress Cons.IH)
  also have "\<dots> = replicate ((n + length (k # keys)) div 1000 - n div 1000) (Progress 1000)"
  proof (cases "(n + 1) mod 1000 = 0")
    case True
    then have "(n + 1) div 1000 = n div 1000 + 1" using div_step [of n] by simp
    moreover have "n + length (k # keys) = n + 1 + length keys" by simp
    ultimately have "(n + length (k # keys)) div 1000 - n div 1000 =
        Suc ((n + 1 + length keys) div 1000 - (n + 1) div 1000)"
      using le by linarith
    with True show ?thesis by (simp only: replicate_Suc refl if_True append_Cons append_Nil)
  next
    case False
    then have "(n + 1) div 1000 = n div 1000" using div_step [of n] by simp
    with False show ?thesis by simp
  qed
  finally show ?case .
qed

lemma generateKey_results:
  "results (snd (generateKey H pub wd n keys)) =
     map (\<lambda>k. Result (searchAddress H pub wd k) (bytesToHex k)
                 (if multisig wd then Some (searchAddress H pub wd k) else None))
       (filter (\<lambda>k. matches (searchAddress H pub wd k) (prefix wd) (suffix wd)) keys)"
proof (induction keys arbitrary: n)
  case Nil
  show ?case by (simp add: results_def)
next
  case (Cons k keys)
  have "results (snd (generateKey H pub wd n (k # keys))) =
      results (snd (generateKey_pass H pub wd n k)) @ results (snd (generateKey H pub wd (n + 1) keys))"
    by (simp only: generateKey_snd_Cons results_def filter_append)
  then show ?case by (simp add: pass_results Cons.IH)
qed

section \<open>The main thread's counters and output\<close>

lemma on_progress_fields:
  "foundCount (on_progress c now st) = foundCount st"
  "totalGenerated (on_progress c now st) = totalGenerated st + c"
  "exitCode (on_progress c now st) = exitCode st"
  "startTime (on_progress c now st) = startTime st"
  "filter is_Private_key (stdout (on_progress c now st)) = filter is_Private_key (stdout st)"
  by (simp_all add: on_progress_def print_def Let_def)

lemma on_result_fields:
  "foundCount (on_result args a k m now st) = foundCount st + 1"
  "totalGenerated (on_result args a k m now st) = totalGenerated st"
  "exitCode (on_result args a k m now st) =
     (if count args \<le> int (foundCount st) + 1 then Some 0 else exitCode st)"
  "startTime (on_result args a k m now st) = startTime st"
  "filter is_Private_key (stdout (on_result args a k m now st)) =
     filter is_Private_key (stdout st) @ [Private_key k]"
  by (simp_all add: on_result_def print_def Let_def)

lemma on_result_final:
  "count args \<le> int (foundCount st) + 1 \<Longrightarrow>
   \<exists>pre. stdout (on_result args a k m now st) =
     pre @ [Private_key k,
            Final_generation_rate (totalGenerated st) (now - startTime st),
            Elapsed_time (now - startTime st),
            Total_addresses_generated (totalGenerated st)]"
  by (simp add: on_result_def print_def Let_def)

lemma found_step:
  "foundCount (on_message args st (m, now)) = foundCount st + (if is_Result m then 1 else 0)"
  by (cases m) (simp_all add: on_progress_fields on_result_fields)

lemma exit_step:
  "exitCode (on_message args st (m, now)) =
     (if is_Result m \<and> count args \<le> int (foundCount st) + 1 then Some 0 else exitCode st)"
  by (cases m) (simp_all add: on_progress_fields on_result_fields)

lemma printed_step:
  "length (filter is_Private_key (stdout (on_message args st (m, now)))) =
     length (filter is_Private_key (stdout st)) + (if is_Result m then 1 else 0)"
  by (cases m) (simp_all add: on_progress_fields on_result_fields)

lemma final_step:
  "exitCode st = None \<Longrightarrow> exitCode (on_message args st (m, now)) \<noteq> None \<Longrightarrow>
   \<exists>pre k t. stdout (on_message args st (m, now)) =
     pre @ [Private_key k,
            Final_generation_rate (totalGenerated (on_message args st (m, now))) t,
            Elapsed_time t,
            Total_addresses_generated (totalGenerated (on_message args st (m, now)))]"
proof (cases m)
  case (Progress c)
  assume "exitCode st = None" "exitCode (on_message args st (m, now)) \<noteq> None"
  with Progress show ?thesis by (simp add: on_progress_fields)
next
  case (Result a k ms)
  assume "exitCode st = None" "exitCode (on_message args st (m, now)) \<noteq> None"
  with Result have "count args \<le> int (foundCount st) + 1"
    by (simp add: on_result_fields split: if_splits)
  from on_result_final [OF this, of a k ms now] Result show ?thesis
    by (simp add: on_result_fields) blast
qed

lemma results_Cons:
  "length (results (m # ms)) = (if is_Result m then 1 else 0) + length (results ms)"
  by (simp add: results_def)

lemma main_loop_found:
  "exitCode st = None \<Longrightarrow> int (foundCount st) < count args \<Longrightarrow>
   (if count args \<le> int (foundCount st + length (results (map fst evs)))
    then exitCode (main_loop args st evs) = Some 0 \<and>
         int (foundCount (main_loop args st evs)) = count args
    else exitCode (main_loop args st evs) = None \<and>
         foundCount (main_loop args st evs) = foundCount st + length (results (map fst evs)))"
proof (induction evs arbitrary: st)
  case Nil
  then show ?case by (simp add: results_def)
next
  case (Cons e evs)
  obtain m now where e: "e = (m, now)" by (cases e)
  let ?st = "on_message args st (m, now)"
  show ?case
  proof (cases "is_Result m \<and> count args \<le> int (foundCount st) + 1")
    case True
    then have "exitCode ?st = Some 0" "int (foundCount ?st) = count args"
      using Cons.prems by (simp_all add: exit_step found_step)
    with True e show ?thesis by (simp add: results_Cons)
  next
    case False
    then have x: "exitCode ?st = None" using Cons.prems by (simp add: exit_step)
    from False have f: "int (foundCount ?st) < count args"
      using Cons.prems by (auto simp: found_step)
    have n: "foundCount st + length (results (map fst (e # evs))) = foundCount ?st + length (results (map fst evs))"
      by (simp add: e results_Cons found_step)
    have ml: "main_loop args st (e # evs) = main_loop args ?st evs"
      using x e by simp
    show ?thesis unfolding ml n by (rule Cons.IH [OF x f])
  qed
qed

lemma worker_progress_1000: "worker_event (Progress c) \<Longrightarrow> c = 1000"
  by (auto simp: worker_event_def generateKey_pass_def Let_def split: if_splits)

lemma worker_event_progress: "worker_event (Progress 1000)"
proof -
  have "Progress 1000 \<in> set (snd (generateKey_pass id id \<lparr>prefix = None, suffix = None, multisig = False\<rparr> 999 []))"
    by (simp add: generateKey_pass_def Let_def)
  then show ?thesis unfolding worker_event_def by blast
qed

lemma worker_event_pass: "m \<in> set (snd (generateKey_pass H pub wd n k)) \<Longrightarrow> worker_event m"
  unfolding worker_event_def by blast

lemma main_loop_total:
  "\<forall>e\<in>set evs. worker_event (fst e) \<Longrightarrow>
   totalGenerated (main_loop args st evs) =
     totalGenerated st + 1000 * progress_count (map fst (handled args st evs))"
proof (induction evs arbitrary: st)
  case Nil
  show ?case by (simp add: progress_count_def)
next
  case (Cons e evs)
  obtain m now where e: "e = (m, now)" by (cases e)
  let ?st = "on_message args st (m, now)"
  from Cons.prems e have w: "worker_event m" by simp
  have step: "totalGenerated ?st = totalGenerated st + 1000 * progress_count [m]"
    using w worker_progress_1000 by (cases m) (auto simp: on_progress_fields on_result_fields progress_count_def)
  show ?case
  proof (cases "exitCode ?st \<noteq> None")
    case True
    with e step show ?thesis by (simp add: progress_count_def)
  next
    case False
    from Cons.prems have "\<forall>e\<in>set evs. worker_event (fst e)" by simp
    from Cons.IH [OF this, of ?st] False e step show ?thesis
      by (simp add: progress_count_def)
  qed
qed

lemma main_loop_printed:
  "length (filter is_Private_key (stdout st)) = foundCount st + d \<Longrightarrow>
   length (filter is_Private_key (stdout (main_loop args st evs))) =
     foundCount (main_loop args st evs) + d"
proof (induction evs arbitrary: st)
  case Nil
  then show ?case by simp
next
  case (Cons e evs)
  obtain m now where e: "e = (m, now)" by (cases e)
  let ?st = "on_message args st (m, now)"
  have p: "length (filter is_Private_key (stdout ?st)) = foundCount ?st + d"
    using Cons.prems by (simp add: printed_step found_step)
  show ?case
  proof (cases "exitCode ?st \<noteq> None")
    case True
    with e p show ?thesis by simp
  next
    case False
    with Cons.IH [OF p] e show ?thesis by simp
  qed
qed

lemma main_loop_final:
  "exitCode st = None \<Longrightarrow> exitCode (main_loop args st evs) \<noteq> None \<Longrightarrow>
   \<exists>pre k t. stdout (main_loop args st evs) =
     pre @ [Private_key k,
            Final_generation_rate (totalGenerated (main_loop args st evs)) t,
            Elapsed_time t,
            Total_addresses_generated (totalGenerated (main_loop args st evs))]"
proof (induction evs arbitrary: st)
  case Nil
  then show ?case by simp
next
  case (Cons e evs)
  obtain m now where e: "e = (m, now)" by (cases e)
  let ?st = "on_message args st (m, now)"
  show ?case
  proof (cases "exitCode ?st \<noteq> None")
    case True
    then have ml: "main_loop args st (e # evs) = ?st" using e by simp
    show ?thesis unfolding ml by (rule final_step [OF Cons.prems(1) True])
  next
    case False
    then have ml: "main_loop args st (e # evs) = main_loop args ?st evs" using e by simp
    from False have x: "exitCode ?st = None" by simp
    from Cons.prems(2) have "exitCode (main_loop args ?st evs) \<noteq> None" unfolding ml .
    from Cons.IH [OF x this] show ?thesis unfolding ml .
  qed
qed

lemma main_loop_handled_found:
  "foundCount (main_loop args st evs) =
     foundCount st + length (results (map fst (handled args st evs)))"
proof (induction evs arbitrary: st)
  case Nil
  show ?case by (simp add: results_def)
next
  case (Cons e evs)
  obtain m now where e: "e = (m, now)" by (cases e)
  show ?case using Cons.IH [of "on_message args st (m, now)"] e
    by (simp add: results_def found_step Let_def)
qed

lemma handled_prefix: "\<exists>rest. evs = handled args st evs @ rest"
  by (induction evs arbitrary: st) (auto simp: Let_def)

lemma main_start_fields:
  "exitCode (main_start L pr args t0 t1) = None"
  "foundCount (main_start L pr args t0 t1) = 0"
  "totalGenerated (main_start L pr args t0 t1) = 0"
  "filter is_Private_key (stdout (main_start L pr args t0 t1)) = []"
  by (simp_all add: main_start_def)

section \<open>Bounds on the logarithm\<close>

lemma exp_taylor_bounds:
  fixes x :: real
  assumes "0 \<le> x" "x \<le> 1/2"
  shows "(\<Sum>m<n. x ^ m / fact m) \<le> exp x"
    and "exp x \<le> (\<Sum>m<n. x ^ m / fact m) + 2 * x ^ n / fact n"
proof -
  obtain t where t: "\<bar>t\<bar> \<le> \<bar>x\<bar>"
    and e: "exp x = (\<Sum>m<n. x ^ m / fact m) + (exp t / fact n) * x ^ n"
    using Maclaurin_exp_le [of x n] by blast
  have "0 \<le> (exp t / fact n) * x ^ n"
    using assms by simp
  with e show "(\<Sum>m<n. x ^ m / fact m) \<le> exp x" by linarith
  have "t \<le> 1/2" using t assms by linarith
  then have "exp t \<le> exp (1/2)" by simp
  also have "\<dots> \<le> 1 + (1/2) + (1/2)\<^sup>2" by (rule exp_bound) simp_all
  also have "\<dots> \<le> 2" by (simp add: power2_eq_square)
  finally have "exp t \<le> 2" .
  then have "(exp t / fact n) * x ^ n \<le> (2 / fact n) * x ^ n"
    using assms by (intro mult_right_mono divide_right_mono) simp_all
  with e show "exp x \<le> (\<Sum>m<n. x ^ m / fact m) + 2 * x ^ n / fact n" by simp
qed

lemma exp_upper_step:
  fixes x a b A B :: real
  assumes "n = Suc m" "0 \<le> x"
    and "x ^ m / fact m \<le> a \<and> (\<Sum>i<m. x ^ i / fact i) \<le> A"
    and "a * x \<le> b * real n" "A + a \<le> B"
  shows "x ^ n / fact n \<le> b \<and> (\<Sum>i<n. x ^ i / fact i) \<le> B"
proof -
  have "x ^ n / fact n = (x ^ m / fact m) * x / real n"
    using assms(1) by (simp add: ac_simps)
  also have "\<dots> \<le> a * x / real n"
    using assms(1,2,3) by (intro divide_right_mono mult_right_mono) simp_all
  also have "\<dots> \<le> b"
    using assms(1,4) by (simp add: field_simps)
  finally have t: "x ^ n / fact n \<le> b" .
  have "(\<Sum>i<n. x ^ i / fact i) = (\<Sum>i<m. x ^ i / fact i) + x ^ m / fact m"
    using assms(1) by simp
  with assms(3,5) have "(\<Sum>i<n. x ^ i / fact i) \<le> B" by linarith
  with t show ?thesis by blast
qed

lemma exp_lower_step:
  fixes x a b A B :: real
  assumes "n = Suc m" "0 \<le> x"
    and "a \<le> x ^ m / fact m \<and> A \<le> (\<Sum>i<m. x ^ i / fact i)"
    and "b * real n \<le> a * x" "B \<le> A + a"
  shows "b \<le> x ^ n / fact n \<and> B \<le> (\<Sum>i<n. x ^ i / fact i)"
proof -
  have "b \<le> a * x / real n"
    using assms(1,4) by (simp add: field_simps)
  also have "\<dots> \<le> (x ^ m / fact m) * x / real n"
    using assms(1,2,3) by (intro divide_right_mono mult_right_mono) simp_all
  also have "\<dots> = x ^ n / fact n"
    using assms(1) by (simp add: ac_simps)
  finally have t: "b \<le> x ^ n / fact n" .
  have "(\<Sum>i<n. x ^ i / fact i) = (\<Sum>i<m. x ^ i / fact i) + x ^ m / fact m"
    using assms(1) by simp
  with assms(3,5) have "B \<le> (\<Sum>i<n. x ^ i / fact i)" by linarith
  with t show ?thesis by blast
qed

lemma exp_runtime_lo: "exp (6745789375439761 / 18014398509481984 :: real) ^ 8 < 20"
proof -
  define x :: real where "x = 6745789375439761 / 18014398509481984"
  have x0: "0 \<le> x" and x1: "x \<le> 1 / 2" by (simp_all add: x_def)
  have i0: "x ^ 0 / fact 0 \<le> 1 \<and> (\<Sum>i<0. x ^ i / fact i) \<le> 0" by simp
  have i1: "x ^ 1 / fact 1 \<le> 6745789375439761 / 18014398509481984 \<and> (\<Sum>i<1. x ^ i / fact i) \<le> 1"
    by (rule exp_upper_step [OF _ x0 i0]) (simp_all add: x_def)
  have i2: "x ^ 2 / fact 2 \<le> 88878270112882735913812772925 / 1267650600228229401496703205376 \<and> (\<Sum>i<2. x ^ i / fact i) \<le> 24760187884921745 / 18014398509481984"
    by (rule exp_upper_step [OF _ x0 i1]) (simp_all add: x_def)
  have i3: "x ^ 3 / fact 3 \<le> 5546989629058581538040659651 / 633825300114114700748351602688 \<and> (\<Sum>i<3. x ^ i / fact i) \<le> 1831221597177836490238829676605 / 1267650600228229401496703205376"
    by (rule exp_upper_step [OF _ x0 i2]) (simp_all add: x_def)
  have i4: "x ^ 4 / fact 4 \<le> 519290495401252276382740179 / 633825300114114700748351602688 \<and> (\<Sum>i<4. x ^ i / fact i) \<le> 1842315576435953653314910995907 / 1267650600228229401496703205376"
    by (rule exp_upper_step [OF _ x0 i3]) (simp_all add: x_def)
  have i5: "x ^ 5 / fact 5 \<le> 38891382410584292853188451 / 633825300114114700748351602688 \<and> (\<Sum>i<5. x ^ i / fact i) \<le> 1843354157426756157867676476265 / 1267650600228229401496703205376"
    by (rule exp_upper_step [OF _ x0 i4]) (simp_all add: x_def)
  have i6: "x ^ 6 / fact 6 \<le> 4854507060438223877163245 / 1267650600228229401496703205376 \<and> (\<Sum>i<6. x ^ i / fact i) \<le> 1843431940191577326453382853167 / 1267650600228229401496703205376"
    by (rule exp_upper_step [OF _ x0 i5]) (simp_all add: x_def)
  have i7: "x ^ 7 / fact 7 \<le> 259692919163401809018015 / 1267650600228229401496703205376 \<and> (\<Sum>i<7. x ^ i / fact i) \<le> 460859198674659441169315004103 / 316912650057057350374175801344"
    by (rule exp_upper_step [OF _ x0 i6]) (simp_all add: x_def)
  have i8: "x ^ 8 / fact 8 \<le> 6077894212119144233381 / 633825300114114700748351602688 \<and> (\<Sum>i<8. x ^ i / fact i) \<le> 1843437054391556928079069034427 / 1267650600228229401496703205376"
    by (rule exp_upper_step [OF _ x0 i7]) (simp_all add: x_def)
  have i9: "x ^ 9 / fact 9 \<le> 126442665600641152137 / 316912650057057350374175801344 \<and> (\<Sum>i<9. x ^ i / fact i) \<le> 1843437066547345352317357501189 / 1267650600228229401496703205376"
    by (rule exp_upper_step [OF _ x0 i8]) (simp_all add: x_def)
  have i10: "x ^ 10 / fact 10 \<le> 2367427338087723183 / 158456325028528675187087900672 \<and> (\<Sum>i<10. x ^ i / fact i) \<le> 1843437067053116014719922109737 / 1267650600228229401496703205376"
    by (rule exp_upper_step [OF _ x0 i9]) (simp_all add: x_def)
  have i11: "x ^ 11 / fact 11 \<le> 161185874590986535 / 316912650057057350374175801344 \<and> (\<Sum>i<11. x ^ i / fact i) \<le> 1843437067072055433424623895201 / 1267650600228229401496703205376"
    by (rule exp_upper_step [OF _ x0 i10]) (simp_all add: x_def)
  have i12: "x ^ 12 / fact 12 \<le> 20119571939718523 / 1267650600228229401496703205376 \<and> (\<Sum>i<12. x ^ i / fact i) \<le> 1843437067072700176922987841341 / 1267650600228229401496703205376"
    by (rule exp_upper_step [OF _ x0 i11]) (simp_all add: x_def)
  have i13: "x ^ 13 / fact 13 \<le> 579546644133713 / 1267650600228229401496703205376 \<and> (\<Sum>i<13. x ^ i / fact i) \<le> 230429633384090037061865944983 / 158456325028528675187087900672"
    by (rule exp_upper_step [OF _ x0 i12]) (simp_all add: x_def)
  have i14: "x ^ 14 / fact 14 \<le> 7750743686881 / 633825300114114700748351602688 \<and> (\<Sum>i<14. x ^ i / fact i) \<le> 1843437067072720876041571693577 / 1267650600228229401496703205376"
    by (rule exp_upper_step [OF _ x0 i13]) (simp_all add: x_def)
  have i15: "x ^ 15 / fact 15 \<le> 48373235431 / 158456325028528675187087900672 \<and> (\<Sum>i<15. x ^ i / fact i) \<le> 1843437067072720891543059067339 / 1267650600228229401496703205376"
    by (rule exp_upper_step [OF _ x0 i14]) (simp_all add: x_def)
  have i16: "x ^ 16 / fact 16 \<le> 4528539455 / 633825300114114700748351602688 \<and> (\<Sum>i<16. x ^ i / fact i) \<le> 1843437067072720891930044950787 / 1267650600228229401496703205376"
    by (rule exp_upper_step [OF _ x0 i15]) (simp_all add: x_def)
  have i17: "x ^ 17 / fact 17 \<le> 49876073 / 316912650057057350374175801344 \<and> (\<Sum>i<17. x ^ i / fact i) \<le> 1843437067072720891939102029697 / 1267650600228229401496703205376"
    by (rule exp_upper_step [OF _ x0 i16]) (simp_all add: x_def)
  have i18: "x ^ 18 / fact 18 \<le> 4150427 / 1267650600228229401496703205376 \<and> (\<Sum>i<18. x ^ i / fact i) \<le> 1843437067072720891939301533989 / 1267650600228229401496703205376"
    by (rule exp_upper_step [OF _ x0 i17]) (simp_all add: x_def)
  have "exp x \<le> (\<Sum>i<18. x ^ i / fact i) + 2 * x ^ 18 / fact 18"
    using x0 x1 by (rule exp_taylor_bounds)
  with i18 have "exp x \<le> 1843437067072720891939309834843 / 1267650600228229401496703205376" by linarith
  then have "exp x ^ 8 \<le> (1843437067072720891939309834843 / 1267650600228229401496703205376) ^ 8" by (rule power_mono) simp
  also have "\<dots> < 20" by (simp add: power_divide)
  finally show ?thesis by (simp only: x_def)
qed

lemma exp_runtime_hi: "20 < exp (13491578750879523 / 36028797018963968 :: real) ^ 8"
proof -
  define x :: real where "x = 13491578750879523 / 36028797018963968"
  have x0: "0 \<le> x" and x1: "x \<le> 1 / 2" by (simp_all add: x_def)
  have i0: "1 \<le> x ^ 0 / fact 0 \<and> 0 \<le> (\<Sum>i<0. x ^ i / fact i)" by simp
  have i1: "13491578750879523 / 36028797018963968 \<le> x ^ 1 / fact 1 \<and> 1 \<le> (\<Sum>i<1. x ^ i / fact i)"
    by (rule exp_lower_step [OF _ x0 i0]) (simp_all add: x_def)
  have i2: "88878270112882749089182646829 / 1267650600228229401496703205376 \<le> x ^ 2 / fact 2 \<and> 49520375769843491 / 36028797018963968 \<le> (\<Sum>i<2. x ^ i / fact i)"
    by (rule exp_lower_step [OF _ x0 i1]) (simp_all add: x_def)
  have i3: "5546989629058582771474433003 / 633825300114114700748351602688 \<le> x ^ 3 / fact 3 \<and> 1831221597177836538598571639341 / 1267650600228229401496703205376 \<le> (\<Sum>i<3. x ^ i / fact i)"
    by (rule exp_lower_step [OF _ x0 i2]) (simp_all add: x_def)
  have i4: "519290495401252430342630267 / 633825300114114700748351602688 \<le> x ^ 4 / fact 4 \<and> 1842315576435953704141520505347 / 1267650600228229401496703205376 \<le> (\<Sum>i<4. x ^ i / fact i)"
    by (rule exp_lower_step [OF _ x0 i3]) (simp_all add: x_def)
  have i5: "77782764821168614532790125 / 1267650600228229401496703205376 \<le> x ^ 5 / fact 5 \<and> 1843354157426756209002205765881 / 1267650600228229401496703205376 \<le> (\<Sum>i<5. x ^ i / fact i)"
    by (rule exp_lower_step [OF _ x0 i4]) (simp_all add: x_def)
  have i6: "4854507060438226036068655 / 1267650600228229401496703205376 \<le> x ^ 6 / fact 6 \<and> 921715970095788688808369278003 / 633825300114114700748351602688 \<le> (\<Sum>i<6. x ^ i / fact i)"
    by (rule exp_lower_step [OF _ x0 i5]) (simp_all add: x_def)
  have i7: "259692919163401943757651 / 1267650600228229401496703205376 \<le> x ^ 7 / fact 7 \<and> 1843436794698637815842774624661 / 1267650600228229401496703205376 \<le> (\<Sum>i<7. x ^ i / fact i)"
    by (rule exp_lower_step [OF _ x0 i6]) (simp_all add: x_def)
  have i8: "189934194128723369917 / 19807040628566084398385987584 \<le> x ^ 8 / fact 8 \<and> 230429631798944622405589797789 / 158456325028528675187087900672 \<le> (\<Sum>i<8. x ^ i / fact i)"
    by (rule exp_lower_step [OF _ x0 i7]) (simp_all add: x_def)
  have i9: "252885331201282472969 / 633825300114114700748351602688 \<le> x ^ 9 / fact 9 \<and> 230429633318418175435376757125 / 158456325028528675187087900672 \<le> (\<Sum>i<9. x ^ i / fact i)"
    by (rule exp_lower_step [OF _ x0 i8]) (simp_all add: x_def)
  have i10: "18939418704701799501 / 1267650600228229401496703205376 \<le> x ^ 10 / fact 10 \<and> 921718533526558032942789501469 / 633825300114114700748351602688 \<le> (\<Sum>i<10. x ^ i / fact i)"
    by (rule exp_lower_step [OF _ x0 i9]) (simp_all add: x_def)
  have i11: "644743498363946665 / 1267650600228229401496703205376 \<le> x ^ 11 / fact 11 \<and> 1843437067072055484590280802439 / 1267650600228229401496703205376 \<le> (\<Sum>i<11. x ^ i / fact i)"
    by (rule exp_lower_step [OF _ x0 i10]) (simp_all add: x_def)
  have i12: "5029892984929635 / 316912650057057350374175801344 \<le> x ^ 12 / fact 12 \<and> 115214816692043764255540296819 / 79228162514264337593543950336 \<le> (\<Sum>i<12. x ^ i / fact i)"
    by (rule exp_lower_step [OF _ x0 i11]) (simp_all add: x_def)
  have i13: "36221665258357 / 79228162514264337593543950336 \<le> x ^ 13 / fact 13 \<and> 460859266768180086915146116911 / 316912650057057350374175801344 \<le> (\<Sum>i<13. x ^ i / fact i)"
    by (rule exp_lower_step [OF _ x0 i12]) (simp_all add: x_def)
  have i14: "15501487373761 / 1267650600228229401496703205376 \<le> x ^ 14 / fact 14 \<and> 460859266768180231801807150339 / 316912650057057350374175801344 \<le> (\<Sum>i<14. x ^ i / fact i)"
    by (rule exp_lower_step [OF _ x0 i13]) (simp_all add: x_def)
  have i15: "386985883447 / 1267650600228229401496703205376 \<le> x ^ 15 / fact 15 \<and> 1843437067072720942708715975117 / 1267650600228229401496703205376 \<le> (\<Sum>i<15. x ^ i / fact i)"
    by (rule exp_lower_step [OF _ x0 i14]) (simp_all add: x_def)
  have i16: "9057078909 / 1267650600228229401496703205376 \<le> x ^ 16 / fact 16 \<and> 460859266768180235773925464641 / 316912650057057350374175801344 \<le> (\<Sum>i<16. x ^ i / fact i)"
    by (rule exp_lower_step [OF _ x0 i15]) (simp_all add: x_def)
  have i17: "199504291 / 1267650600228229401496703205376 \<le> x ^ 17 / fact 17 \<and> 1843437067072720943104758937473 / 1267650600228229401496703205376 \<le> (\<Sum>i<17. x ^ i / fact i)"
    by (rule exp_lower_step [OF _ x0 i16]) (simp_all add: x_def)
  have i18: "2075213 / 633825300114114700748351602688 \<le> x ^ 18 / fact 18 \<and> 460859266768180235776239610441 / 316912650057057350374175801344 \<le> (\<Sum>i<18. x ^ i / fact i)"
    by (rule exp_lower_step [OF _ x0 i17]) (simp_all add: x_def)
  have "(\<Sum>i<18. x ^ i / fact i) \<le> exp x"
    using x0 x1 by (rule exp_taylor_bounds)
  with i18 have "460859266768180235776239610441 / 316912650057057350374175801344 \<le> exp x" by linarith
  then have "(460859266768180235776239610441 / 316912650057057350374175801344) ^ 8 \<le> exp x ^ 8" by (rule power_mono) simp
  moreover have "20 < (460859266768180235776239610441 / 316912650057057350374175801344 :: real) ^ 8" by (simp add: power_divide)
  ultimately show ?thesis by (simp only: x_def)
qed

lemma ln20_runtime:
  "6745789375439761 / 2251799813685248 < ln (20::real)"
  "ln (20::real) < 13491578750879523 / 4503599627370496"
proof -
  have "exp (6745789375439761 / 2251799813685248 :: real) =
      exp (6745789375439761 / 18014398509481984) ^ 8"
    by (simp add: exp_of_nat_mult [symmetric])
  then have "exp (6745789375439761 / 2251799813685248 :: real) < exp (ln 20)"
    using exp_runtime_lo by simp
  then show "6745789375439761 / 2251799813685248 < ln (20::real)"
    by (simp only: exp_less_cancel_iff)
  have "exp (13491578750879523 / 4503599627370496 :: real) =
      exp (13491578750879523 / 36028797018963968) ^ 8"
    by (simp add: exp_of_nat_mult [symmetric])
  then have "exp (ln 20) < exp (13491578750879523 / 4503599627370496 :: real)"
    using exp_runtime_hi by simp
  then show "ln (20::real) < 13491578750879523 / 4503599627370496"
    by (simp only: exp_less_cancel_iff)
qed

lemma ln20_bounds: "2995732 / 1000000 < ln (20::real)" "ln (20::real) < 2995733 / 1000000"
  using ln20_runtime by linarith+

section \<open>The worker: further facts\<close>

lemma startsWith_set: "startsWith a p \<Longrightarrow> set p \<subseteq> set a"
  unfolding startsWith_def by (metis set_take_subset)

lemma endsWith_set: "endsWith a p \<Longrightarrow> set p \<subseteq> set a"
  unfolding endsWith_def by (metis set_drop_subset)

lemma searchAddress_hex: "set (searchAddress H pub wd k) \<subseteq> set hexDigits"
  by (simp add: searchAddress_def Let_def set_bytesToHex)

lemma matches_hex:
  assumes "matches a p s" "set a \<subseteq> set hexDigits" "p = Some t \<or> s = Some t"
  shows "set t \<subseteq> set hexDigits"
proof -
  from assms(1,3) have "startsWith a t \<or> endsWith a t"
    by (auto simp: matches_def)
  then have "set t \<subseteq> set a"
    using startsWith_set endsWith_set by blast
  with assms(2) show ?thesis by blast
qed

lemma result_in_generateKey:
  assumes "Result a k ms \<in> set (snd (generateKey H pub wd n keys))"
  shows "\<exists>key \<in> set keys. a = searchAddress H pub wd key \<and> k = bytesToHex key \<and>
           ms = (if multisig wd then Some a else None) \<and>
           matches a (prefix wd) (suffix wd)"
proof -
  from assms have "Result a k ms \<in> set (results (snd (generateKey H pub wd n keys)))"
    by (simp add: results_def)
  then show ?thesis unfolding generateKey_results by auto
qed

lemma sample_standard:
  "searchAddress sample_digest sample_pub \<lparr>prefix = p, suffix = s, multisig = False\<rparr> [0xab] =
     ''00ab000000000000000000000000000000000000000000000000000000000000''"
  by code_simp

lemma matches_None: "matches a None None"
  by (simp add: matches_def)

section \<open>The estimate: facts\<close>

lemma neg_ln_005: "- ln (5 / 100 :: real) = ln 20"
proof -
  have "ln (5 / 100 :: real) = ln (inverse 20)" by simp
  also have "\<dots> = - ln 20" by (simp only: ln_inverse)
  finally show ?thesis by simp
qed

lemma attemptsNeeded_finite:
  "matchNeeded p s \<le> 255 \<Longrightarrow>
   attemptsNeeded L p s = Fin (of_int \<lceil>L / (1 / 16 ^ matchNeeded p s)\<rceil>)"
  by (simp add: attemptsNeeded_def probabilityPerTry_def pow16_def)

lemma attemptsNeeded_infinite:
  "0 < L \<Longrightarrow> 255 < matchNeeded p s \<Longrightarrow> attemptsNeeded L p s = PosInf"
  by (simp add: attemptsNeeded_def probabilityPerTry_def pow16_def)

lemma ceiling_four_digits:
  fixes L :: real
  assumes "\<bar>L - ln 20\<bar> \<le> 1 / 10 ^ 6"
  shows "\<lceil>L / (1 / 16 ^ 4)\<rceil> = 196329"
proof -
  have "(1 / 10 ^ 6 :: real) = 1 / 1000000" by simp
  with assms ln20_bounds have "2995731 / 1000000 < L" "L < 2995734 / 1000000"
    by linarith+
  then have "196328 < L * 65536" "L * 65536 \<le> 196329" by linarith+
  then have "\<lceil>L * 65536\<rceil> = 196329" by (simp add: ceiling_unique)
  then show ?thesis by simp
qed

lemma ceiling_ln: "\<lceil>- ln (5 / 100 :: real) / (1 / 16 ^ 4)\<rceil> = 196329"
  unfolding neg_ln_005 by (rule ceiling_four_digits) simp

lemma runtime_log_close: "\<bar>6745789375439761 / 2251799813685248 - ln 20\<bar> \<le> (1 / 10 ^ 6 :: real)"
proof -
  have "(1 / 10 ^ 6 :: real) = 1 / 1000000" by simp
  with ln20_bounds show ?thesis by linarith
qed

lemma ceiling_ln_13: "\<lceil>- ln (5 / 100 :: real) / (1 / 16 ^ 13)\<rceil> = 13491578750879523"
proof -
  from ln20_runtime have "13491578750879522 < ln 20 * (4503599627370496 :: real)"
    "ln 20 * (4503599627370496 :: real) \<le> 13491578750879523"
    by linarith+
  then have "\<lceil>ln 20 * (4503599627370496 :: real)\<rceil> = 13491578750879523"
    by (simp add: ceiling_unique)
  then show ?thesis unfolding neg_ln_005 by simp
qed

lemma attempts_13:
  "attemptsNeeded (6745789375439761 / 2251799813685248) (Some ''0123456789abc'') None =
     Fin 13491578750879522"
proof -
  have m: "matchNeeded (Some ''0123456789abc'') None = 13"
    by (simp add: matchNeeded_def optional_length_def)
  have "\<lceil>(6745789375439761 / 2251799813685248 :: real) / (1 / 16 ^ 13)\<rceil> = 13491578750879522"
    by simp
  then show ?thesis
    using attemptsNeeded_finite [of "Some ''0123456789abc''" None "6745789375439761 / 2251799813685248"] m
    by simp
qed

lemma attempts_256:
  "attemptsNeeded (6745789375439761 / 2251799813685248) (Some (replicate 256 (CHR ''0''))) None = PosInf"
proof -
  have "matchNeeded (Some (replicate 256 (CHR ''0''))) None = 256"
    by (simp add: matchNeeded_def optional_length_def)
  then show ?thesis
    using attemptsNeeded_infinite [of "6745789375439761 / 2251799813685248"
        "Some (replicate 256 (CHR ''0''))" None]
    by simp
qed


section \<open>Address derivation: properties\<close>

lemma length_sample_digest: "length (sample_digest b) = 32"
  by (simp add: sample_digest_def)

















text \<open>
  C4. For every private key, \<open>authKeyBytesVec\<close> returns the digest of the public key's
  bytes followed by the single byte \<open>0x00\<close>, as the digest returns it: nothing is cut
  off or added. The result is a function of the public key alone, and it has the
  digest's output length whenever the digest has one fixed output length.
\<close>

theorem authKeyBytesVec_raw_digest:
  "authKeyBytesVec H pub privateKey = H (pub privateKey @ [0x00]) \<and>
   (pub k1 = pub k2 \<longrightarrow> authKeyBytesVec H pub k1 = authKeyBytesVec H pub k2) \<and>
   ((\<forall>b. length (H b) = len) \<longrightarrow> length (authKeyBytesVec H pub privateKey) = len)"
  by (simp add: authKeyBytesVec_def)

theorem authKeyBytesVec_raw_digest_witness:
  "authKeyBytesVec sample_digest sample_pub [0xab, 0xcd] = sample_digest [0xab, 0xcd, 0x00] \<and>
   length (authKeyBytesVec sample_digest sample_pub [0xab, 0xcd]) = 32"
  using authKeyBytesVec_raw_digest [of sample_digest sample_pub "[0xab, 0xcd]" "[0xab, 0xcd]" "[0xab, 0xcd]" 32]
    length_sample_digest
  by (simp add: sample_pub_def)




section \<open>The worker: properties\<close>

text \<open>
  C5. A pass of the worker posts a result exactly when the address matches: no prefix is
  given or the address starts with it, and no suffix is given or the address ends with
  it. An empty prefix or suffix makes the pass behave exactly as an absent one does, and
  with neither given the predicate holds of every address.
\<close>

theorem posts_result_iff_matches:
  "(results (snd (generateKey_pass H pub wd n k)) \<noteq> []) =
     matches (searchAddress H pub wd k) (prefix wd) (suffix wd) \<and>
   matches a p s = ((p = None \<or> startsWith a (the p)) \<and> (s = None \<or> endsWith a (the s))) \<and>
   generateKey_pass H pub (wd\<lparr>prefix := Some []\<rparr>) n k = generateKey_pass H pub (wd\<lparr>prefix := None\<rparr>) n k \<and>
   generateKey_pass H pub (wd\<lparr>suffix := Some []\<rparr>) n k = generateKey_pass H pub (wd\<lparr>suffix := None\<rparr>) n k \<and>
   matches a (Some []) s = matches a None s \<and>
   matches a p (Some []) = matches a p None \<and>
   matches a None None"
proof -
  have 1: "(results (snd (generateKey_pass H pub wd n k)) \<noteq> []) =
     matches (searchAddress H pub wd k) (prefix wd) (suffix wd)"
    by (simp add: pass_results)
  have 2: "matches a p s = ((p = None \<or> startsWith a (the p)) \<and> (s = None \<or> endsWith a (the s)))"
    by (cases p; cases s) (simp_all add: matches_def)
  have 3: "generateKey_pass H pub (wd\<lparr>prefix := Some []\<rparr>) n k = generateKey_pass H pub (wd\<lparr>prefix := None\<rparr>) n k"
    by (simp add: generateKey_pass_def rejects_prefix_def searchAddress_def Let_def)
  have 4: "generateKey_pass H pub (wd\<lparr>suffix := Some []\<rparr>) n k = generateKey_pass H pub (wd\<lparr>suffix := None\<rparr>) n k"
    by (simp add: generateKey_pass_def rejects_suffix_def searchAddress_def Let_def)
  have 5: "matches a (Some []) s = matches a None s" "matches a p (Some []) = matches a p None"
    "matches a None None"
    by (simp_all add: matches_def startsWith_Nil endsWith_Nil)
  from 1 2 3 4 5 show ?thesis by blast
qed

theorem posts_result_iff_matches_witness:
  "results (snd (generateKey_pass sample_digest sample_pub
       \<lparr>prefix = Some ''00ab'', suffix = Some ''00'', multisig = False\<rparr> 0 [0xab])) \<noteq> [] \<and>
   results (snd (generateKey_pass sample_digest sample_pub
       \<lparr>prefix = Some ''ab'', suffix = None, multisig = False\<rparr> 0 [0xab])) = [] \<and>
   generateKey_pass sample_digest sample_pub \<lparr>prefix = Some [], suffix = Some ''00'', multisig = False\<rparr> 0 [0xab] =
     generateKey_pass sample_digest sample_pub \<lparr>prefix = None, suffix = Some ''00'', multisig = False\<rparr> 0 [0xab]"
proof -
  have a: "matches (searchAddress sample_digest sample_pub
      \<lparr>prefix = Some ''00ab'', suffix = Some ''00'', multisig = False\<rparr> [0xab]) (Some ''00ab'') (Some ''00'')"
    unfolding sample_standard by code_simp
  have b: "\<not> matches (searchAddress sample_digest sample_pub
      \<lparr>prefix = Some ''ab'', suffix = None, multisig = False\<rparr> [0xab]) (Some ''ab'') None"
    unfolding sample_standard by code_simp
  show ?thesis
    using a b
      posts_result_iff_matches [of sample_digest sample_pub
        "\<lparr>prefix = Some ''00ab'', suffix = Some ''00'', multisig = False\<rparr>" 0 "[0xab]"]
      posts_result_iff_matches [of sample_digest sample_pub
        "\<lparr>prefix = Some ''ab'', suffix = None, multisig = False\<rparr>" 0 "[0xab]"]
      posts_result_iff_matches [of sample_digest sample_pub
        "\<lparr>prefix = None, suffix = Some ''00'', multisig = False\<rparr>" 0 "[0xab]"]
    by simp
qed

text \<open>
  C9. \<open>bytesToHex\<close> writes only the characters \<^verbatim>\<open>0\<close> to \<^verbatim>\<open>9\<close> and \<^verbatim>\<open>a\<close> to \<^verbatim>\<open>f\<close>, and
  a worker gets the prefix and the suffix as the command line has them. So when the
  prefix or the suffix contains a character outside this alphabet, an upper-case digit
  for one, no pass of a worker ever posts a result, whatever keys are generated.
\<close>

theorem unnormalised_pattern_never_matches:
  "set (bytesToHex bs) \<subseteq> set ''0123456789abcdef'' \<and>
   prefix (spawn_workerData args) = prefix args \<and>
   suffix (spawn_workerData args) = suffix args \<and>
   ((prefix wd = Some t \<or> suffix wd = Some t) \<and> (\<exists>c \<in> set t. c \<notin> set ''0123456789abcdef'') \<longrightarrow>
      results (snd (generateKey H pub wd n keys)) = [])"
proof -
  have h: "set (bytesToHex bs) \<subseteq> set ''0123456789abcdef''"
    using set_bytesToHex [of bs] by (simp only: hexDigits_def)
  have "results (snd (generateKey H pub wd n keys)) = []"
    if t: "prefix wd = Some t \<or> suffix wd = Some t" and c: "\<exists>c \<in> set t. c \<notin> set hexDigits"
  proof -
    have "\<not> matches (searchAddress H pub wd k) (prefix wd) (suffix wd)" for k
      using matches_hex [OF _ searchAddress_hex t, of H pub wd k] c by blast
    then show ?thesis by (simp add: generateKey_results)
  qed
  then have r: "(prefix wd = Some t \<or> suffix wd = Some t) \<and> (\<exists>c \<in> set t. c \<notin> set ''0123456789abcdef'') \<longrightarrow>
      results (snd (generateKey H pub wd n keys)) = []"
    by (simp only: hexDigits_def) blast
  have "prefix (spawn_workerData args) = prefix args" "suffix (spawn_workerData args) = suffix args"
    by (simp_all add: spawn_workerData_def)
  with h r show ?thesis by blast
qed

theorem unnormalised_pattern_never_matches_witness:
  "results (snd (generateKey sample_digest sample_pub
       \<lparr>prefix = Some ''00AB'', suffix = None, multisig = False\<rparr> 0 [[0xab], [0xab]])) = [] \<and>
   results (snd (generateKey sample_digest sample_pub
       \<lparr>prefix = Some ''00ab'', suffix = None, multisig = False\<rparr> 0 [[0xab], [0xab]])) \<noteq> [] \<and>
   bytesToHex [0xab, 0xcd, 0xef] = ''abcdef''"
proof -
  have "CHR ''A'' \<in> set ''00AB'' \<and> CHR ''A'' \<notin> set ''0123456789abcdef''" by simp
  then have 1: "results (snd (generateKey sample_digest sample_pub
       \<lparr>prefix = Some ''00AB'', suffix = None, multisig = False\<rparr> 0 [[0xab], [0xab]])) = []"
    using unnormalised_pattern_never_matches [of _ _
        "\<lparr>prefix = Some ''00AB'', suffix = None, multisig = False\<rparr>" "''00AB''"
        sample_digest sample_pub 0 "[[0xab], [0xab]]"]
    by auto
  have 2: "results (snd (generateKey sample_digest sample_pub
       \<lparr>prefix = Some ''00ab'', suffix = None, multisig = False\<rparr> 0 [[0xab], [0xab]])) \<noteq> []"
    by code_simp
  have 3: "bytesToHex [0xab, 0xcd, 0xef] = ''abcdef''" by code_simp
  from 1 2 3 show ?thesis by blast
qed

text \<open>
  C10. Every result a worker posts agrees with its own private-key field: decoding the
  field gives the key's bytes, and the address field is the hexadecimal text of the
  standard address of that key's public key when \<open>multisig\<close> is off, and of the multisig
  address derived from that standard address with nonce 0 when \<open>multisig\<close> is on.
\<close>

theorem result_address_of_private_key:
  "m \<in> set (snd (generateKey H pub wd n keys)) \<Longrightarrow> m = Result a k ms \<Longrightarrow>
   a = bytesToHex
         (if multisig wd
          then createMultisigAccountAddress H (authKeyBytesVec H pub (Buffer_from_hex k)) 0
          else authKeyBytesVec H pub (Buffer_from_hex k))"
proof -
  assume "m \<in> set (snd (generateKey H pub wd n keys))" "m = Result a k ms"
  then obtain key where "a = searchAddress H pub wd key" "k = bytesToHex key"
    using result_in_generateKey [of a k ms H pub wd n keys] by blast
  then show ?thesis
    by (simp add: searchAddress_def Let_def Buffer_from_hex_bytesToHex SEQUENCE_NUMBER_MULTISIG_def)
qed

theorem result_address_of_private_key_witness:
  "Result ''00ab000000000000000000000000000000000000000000000000000000000000'' ''ab'' None
     \<in> set (snd (generateKey sample_digest sample_pub
            \<lparr>prefix = Some ''00'', suffix = None, multisig = False\<rparr> 0 [[0x01], [0xab]])) \<and>
   ''00ab000000000000000000000000000000000000000000000000000000000000'' =
     bytesToHex (authKeyBytesVec sample_digest sample_pub (Buffer_from_hex ''ab''))"
proof -
  have m: "Result ''00ab000000000000000000000000000000000000000000000000000000000000'' ''ab'' None
     \<in> set (snd (generateKey sample_digest sample_pub
            \<lparr>prefix = Some ''00'', suffix = None, multisig = False\<rparr> 0 [[0x01], [0xab]]))"
    by code_simp
  from result_address_of_private_key [OF m refl] m show ?thesis by simp
qed

text \<open>
  C1. With \<open>multisig\<close> on, a result does not carry the standard address: the worker puts
  the multisig address into both the \<open>address\<close> and the \<open>multisigAddress\<close> field, and the
  main thread prints this one text on the line for the multisig address and on the line
  for the standard address.
\<close>

theorem multisig_result_repeats_address:
  "multisig wd \<Longrightarrow> m \<in> set (snd (generateKey H pub wd n keys)) \<Longrightarrow> m = Result a k ms \<Longrightarrow>
   ms = Some a \<and>
   a = bytesToHex (createMultisigAccountAddress H (authKeyBytesVec H pub (Buffer_from_hex k)) 0) \<and>
   (a \<noteq> [] \<longrightarrow>
     (\<exists>rest. stdout (on_message args st (m, now)) =
        stdout st @ [Blank, Multisig_account_address a, Standard_account_address a, Private_key k] @ rest))"
proof -
  assume wd: "multisig wd" and "m \<in> set (snd (generateKey H pub wd n keys))" and m: "m = Result a k ms"
  then obtain key where key: "a = searchAddress H pub wd key" "k = bytesToHex key"
    "ms = (if multisig wd then Some a else None)"
    using result_in_generateKey [of a k ms H pub wd n keys] by blast
  from key wd have 1: "ms = Some a" by simp
  from key wd have 2: "a = bytesToHex (createMultisigAccountAddress H (authKeyBytesVec H pub (Buffer_from_hex k)) 0)"
    by (simp add: searchAddress_def Let_def Buffer_from_hex_bytesToHex SEQUENCE_NUMBER_MULTISIG_def)
  have 3: "\<exists>rest. stdout (on_message args st (m, now)) =
        stdout st @ [Blank, Multisig_account_address a, Standard_account_address a, Private_key k] @ rest"
    if "a \<noteq> []"
    using that m 1 by (simp add: on_result_def print_def Let_def)
  from 1 2 3 show ?thesis by blast
qed

theorem multisig_result_repeats_address_witness:
  "Result ''ff746e756f6363615f67697369746c756d3a3a6b726f77656d6172665f736f74'' ''ab''
      (Some ''ff746e756f6363615f67697369746c756d3a3a6b726f77656d6172665f736f74'')
     \<in> set (snd (generateKey sample_digest sample_pub
            \<lparr>prefix = Some ''ff'', suffix = None, multisig = True\<rparr> 0 [[0xab]])) \<and>
   bytesToHex (authKeyBytesVec sample_digest sample_pub [0xab]) =
     ''00ab000000000000000000000000000000000000000000000000000000000000'' \<and>
   ''ff746e756f6363615f67697369746c756d3a3a6b726f77656d6172665f736f74'' =
     bytesToHex (createMultisigAccountAddress sample_digest
       (authKeyBytesVec sample_digest sample_pub (Buffer_from_hex ''ab'')) 0)"
proof -
  let ?a = "''ff746e756f6363615f67697369746c756d3a3a6b726f77656d6172665f736f74''"
  let ?wd = "\<lparr>prefix = Some ''ff'', suffix = None, multisig = True\<rparr>"
  have w: "multisig ?wd" by simp
  have m: "Result ?a ''ab'' (Some ?a)
     \<in> set (snd (generateKey sample_digest sample_pub ?wd 0 [[0xab]]))"
    by code_simp
  have s: "bytesToHex (authKeyBytesVec sample_digest sample_pub [0xab]) =
     ''00ab000000000000000000000000000000000000000000000000000000000000''"
    by code_simp
  from multisig_result_repeats_address [OF w m refl] m s show ?thesis by simp
qed

text \<open>
  C2, as the code has it. The local counter counts every pass, whether its key matches
  or not: after the passes for \<open>keys\<close> it has grown by their number, and one progress
  message with count 1000 has been posted for each multiple of 1000 the counter reached,
  whatever the configuration and the keys.
\<close>

theorem progress_every_1000_attempts:
  "fst (generateKey H pub wd n keys) = n + length keys \<and>
   filter is_Progress (snd (generateKey H pub wd n keys)) =
     replicate ((n + length keys) div 1000 - n div 1000) (Progress 1000) \<and>
   progress_count (snd (generateKey H pub wd 0 keys)) = length keys div 1000"
  by (simp add: generateKey_counter generateKey_progress progress_count_def)

theorem progress_every_1000_attempts_witness:
  "fst (generateKey sample_digest sample_pub
      \<lparr>prefix = Some ''ff'', suffix = None, multisig = False\<rparr> 0 (replicate 2500 [0xab])) = 2500 \<and>
   filter is_Progress (snd (generateKey sample_digest sample_pub
      \<lparr>prefix = Some ''ff'', suffix = None, multisig = False\<rparr> 0 (replicate 2500 [0xab]))) =
     [Progress 1000, Progress 1000] \<and>
   progress_count (snd (generateKey sample_digest sample_pub
      \<lparr>prefix = None, suffix = None, multisig = False\<rparr> 0 (replicate 2500 [0xab]))) = 2"
proof -
  have "replicate (2500 div 1000) (Progress 1000) = [Progress 1000, Progress 1000]"
    by (simp add: numeral_2_eq_2)
  then show ?thesis
    using progress_every_1000_attempts [of sample_digest sample_pub
        "\<lparr>prefix = Some ''ff'', suffix = None, multisig = False\<rparr>" 0 "replicate 2500 [0xab]"]
      progress_every_1000_attempts [of sample_digest sample_pub
        "\<lparr>prefix = None, suffix = None, multisig = False\<rparr>" 0 "replicate 2500 [0xab]"]
    by simp
qed

text \<open>
  C2 as stated fails: with no prefix and no suffix every one of 1000 passes posts a
  result, so no generation is a non-matching one, and yet a progress message is posted.
\<close>

theorem progress_counts_matching_attempts_counterexample:
  "length (replicate 1000 [0xab :: byte]) = 1000 \<and>
   length (results (snd (generateKey sample_digest sample_pub
      \<lparr>prefix = None, suffix = None, multisig = False\<rparr> 0 (replicate 1000 [0xab])))) = 1000 \<and>
   progress_count (snd (generateKey sample_digest sample_pub
      \<lparr>prefix = None, suffix = None, multisig = False\<rparr> 0 (replicate 1000 [0xab]))) = 1"
  by (simp add: generateKey_results generateKey_progress progress_count_def matches_None)

section \<open>The main thread: properties\<close>

text \<open>
  C7. For a target count of at least 1: each message changes \<open>foundCount\<close> by one if it is
  a result and not at all otherwise; the process exits, with code 0, exactly when the
  messages hold as many results as the target count, which is exactly when \<open>foundCount\<close>
  equals it; \<open>foundCount\<close> never exceeds the target count, and it is the number of
  results printed and the number of results among the messages handled, which are an
  initial part of the messages; on exit the output ends with the last result and the
  three lines of final statistics.
\<close>

theorem main_exits_at_count:
  assumes "1 \<le> count args"
  shows
  "foundCount (on_message args s (m, now)) = foundCount s + (if is_Result m then 1 else 0) \<and>
   exitCode (main_loop args (main_start L per_rate args t0 t1) evs) =
     (if count args \<le> int (length (results (map fst evs))) then Some 0 else None) \<and>
   (exitCode (main_loop args (main_start L per_rate args t0 t1) evs) = Some 0) =
     (int (foundCount (main_loop args (main_start L per_rate args t0 t1) evs)) = count args) \<and>
   int (foundCount (main_loop args (main_start L per_rate args t0 t1) evs)) \<le> count args \<and>
   length (filter is_Private_key (stdout (main_loop args (main_start L per_rate args t0 t1) evs))) =
     foundCount (main_loop args (main_start L per_rate args t0 t1) evs) \<and>
   foundCount (main_loop args (main_start L per_rate args t0 t1) evs) =
     length (results (map fst (handled args (main_start L per_rate args t0 t1) evs))) \<and>
   (\<exists>rest. evs = handled args (main_start L per_rate args t0 t1) evs @ rest) \<and>
   (exitCode (main_loop args (main_start L per_rate args t0 t1) evs) = Some 0 \<longrightarrow>
     (\<exists>pre k t. stdout (main_loop args (main_start L per_rate args t0 t1) evs) =
        pre @ [Private_key k,
               Final_generation_rate (totalGenerated (main_loop args (main_start L per_rate args t0 t1) evs)) t,
               Elapsed_time t,
               Total_addresses_generated (totalGenerated (main_loop args (main_start L per_rate args t0 t1) evs))]))"
proof -
  let ?init = "main_start L per_rate args t0 t1"
  let ?st = "main_loop args ?init evs"
  have x0: "exitCode ?init = None" and f0: "int (foundCount ?init) < count args"
    using assms by (simp_all add: main_start_fields)
  note found = main_loop_found [OF x0 f0, of evs]
  have 1: "foundCount (on_message args s (m, now)) = foundCount s + (if is_Result m then 1 else 0)"
    by (rule found_step)
  have 2: "exitCode ?st = (if count args \<le> int (length (results (map fst evs))) then Some 0 else None)"
    using found by (simp add: main_start_fields split: if_splits)
  have 3: "(exitCode ?st = Some 0) = (int (foundCount ?st) = count args)"
    using found by (auto simp: main_start_fields split: if_splits)
  have 4: "int (foundCount ?st) \<le> count args"
    using found by (auto simp: main_start_fields split: if_splits)
  have 5: "length (filter is_Private_key (stdout ?st)) = foundCount ?st"
    using main_loop_printed [of ?init 0 args evs] by (simp add: main_start_fields)
  have 6: "foundCount ?st = length (results (map fst (handled args ?init evs)))"
    using main_loop_handled_found [of args ?init evs] by (simp add: main_start_fields)
  have 7: "\<exists>pre k t. stdout ?st =
        pre @ [Private_key k, Final_generation_rate (totalGenerated ?st) t, Elapsed_time t,
               Total_addresses_generated (totalGenerated ?st)]"
    if "exitCode ?st = Some 0"
    using main_loop_final [OF x0, of args evs] that by simp
  have 8: "\<exists>rest. evs = handled args ?init evs @ rest"
    by (rule handled_prefix)
  from 1 2 3 4 5 6 7 8 show ?thesis by blast
qed

theorem main_exits_at_count_witness:
  "1 \<le> count \<lparr>prefix = None, suffix = None, multisig = False, count = 2, threads = 1\<rparr> \<and>
   exitCode (main_loop \<lparr>prefix = None, suffix = None, multisig = False, count = 2, threads = 1\<rparr>
      (main_start 3 id \<lparr>prefix = None, suffix = None, multisig = False, count = 2, threads = 1\<rparr> 0 1)
      [(Result ''aa'' ''01'' None, 10), (Progress 1000, 1500), (Result ''bb'' ''02'' None, 1600),
       (Result ''cc'' ''03'' None, 1700)]) = Some 0 \<and>
   foundCount (main_loop \<lparr>prefix = None, suffix = None, multisig = False, count = 2, threads = 1\<rparr>
      (main_start 3 id \<lparr>prefix = None, suffix = None, multisig = False, count = 2, threads = 1\<rparr> 0 1)
      [(Result ''aa'' ''01'' None, 10), (Progress 1000, 1500), (Result ''bb'' ''02'' None, 1600),
       (Result ''cc'' ''03'' None, 1700)]) = 2 \<and>
   stdout (main_loop \<lparr>prefix = None, suffix = None, multisig = False, count = 2, threads = 1\<rparr>
      (main_start 3 id \<lparr>prefix = None, suffix = None, multisig = False, count = 2, threads = 1\<rparr> 0 1)
      [(Result ''aa'' ''01'' None, 10), (Progress 1000, 1500), (Result ''bb'' ''02'' None, 1600),
       (Result ''cc'' ''03'' None, 1700)]) =
     [Banner_benchmarking, Banner_estimate Should_be_instant, Banner_generating,
      Blank, Standard_account_address ''aa'', Private_key ''01'',
      Progress_line 1000 1500,
      Blank, Standard_account_address ''bb'', Private_key ''02'',
      Final_generation_rate 1000 1600, Elapsed_time 1600, Total_addresses_generated 1000] \<and>
   exitCode (main_loop \<lparr>prefix = None, suffix = None, multisig = False, count = 2, threads = 1\<rparr>
      (main_start 3 id \<lparr>prefix = None, suffix = None, multisig = False, count = 2, threads = 1\<rparr> 0 1)
      [(Result ''aa'' ''01'' None, 10), (Progress 1000, 1500)]) = None"
proof -
  let ?args = "\<lparr>prefix = None, suffix = None, multisig = False, count = 2, threads = 1\<rparr>"
  let ?evs = "[(Result ''aa'' ''01'' None, 10), (Progress 1000, 1500), (Result ''bb'' ''02'' None, 1600),
       (Result ''cc'' ''03'' None, 1700 :: int)]"
  have c: "1 \<le> count ?args" by simp
  have out: "stdout (main_loop ?args (main_start 3 id ?args 0 1) ?evs) =
     [Banner_benchmarking, Banner_estimate Should_be_instant, Banner_generating,
      Blank, Standard_account_address ''aa'', Private_key ''01'',
      Progress_line 1000 1500,
      Blank, Standard_account_address ''bb'', Private_key ''02'',
      Final_generation_rate 1000 1600, Elapsed_time 1600, Total_addresses_generated 1000]"
    by (simp add: main_start_def calculateEstimate_def on_result_def on_progress_def print_def Let_def)
  show ?thesis
    using c out
      main_exits_at_count [OF c, of "main_start 3 id ?args 0 1" "Progress 1000" 0 3 id 0 1 ?evs,
        THEN conjunct2]
      main_exits_at_count [OF c, of "main_start 3 id ?args 0 1" "Progress 1000" 0 3 id 0 1
        "[(Result ''aa'' ''01'' None, 10), (Progress 1000, 1500)]", THEN conjunct2, THEN conjunct1]
    by (simp add: results_def del: main_loop.simps)
qed

text \<open>
  C8. After any sequence of messages that workers post, \<open>totalGenerated\<close> is 1000 times
  the number of progress messages handled, hence a multiple of 1000. Every progress
  message of a worker counts 1000, and together they account for the worker's passes
  less the passes since the last multiple of 1000, which never reach the total.
\<close>

theorem totalGenerated_thousands:
  assumes "\<forall>e \<in> set evs. worker_event (fst e)"
  shows
  "totalGenerated (main_loop args (main_start L per_rate args t0 t1) evs) =
     1000 * progress_count (map fst (handled args (main_start L per_rate args t0 t1) evs)) \<and>
   1000 dvd totalGenerated (main_loop args (main_start L per_rate args t0 t1) evs) \<and>
   (\<forall>c. Progress c \<in> set (snd (generateKey H pub wd 0 keys)) \<longrightarrow> c = 1000) \<and>
   1000 * progress_count (snd (generateKey H pub wd 0 keys)) = length keys - length keys mod 1000"
proof -
  let ?init = "main_start L per_rate args t0 t1"
  have 1: "totalGenerated (main_loop args ?init evs) =
     1000 * progress_count (map fst (handled args ?init evs))"
    using main_loop_total [OF assms, of args ?init] by (simp add: main_start_fields)
  then have 2: "1000 dvd totalGenerated (main_loop args ?init evs)" by simp
  have 3: "c = 1000" if "Progress c \<in> set (snd (generateKey H pub wd 0 keys))" for c
  proof -
    from that have "Progress c \<in> set (filter is_Progress (snd (generateKey H pub wd 0 keys)))"
      by simp
    then show ?thesis unfolding generateKey_progress by simp
  qed
  have "1000 * (length keys div 1000) = length keys - length keys mod 1000"
    by (simp add: minus_mod_eq_mult_div)
  then have 4: "1000 * progress_count (snd (generateKey H pub wd 0 keys)) = length keys - length keys mod 1000"
    by (simp add: progress_count_def generateKey_progress)
  from 1 2 3 4 show ?thesis by blast
qed

theorem totalGenerated_thousands_witness:
  "worker_event (Progress 1000) \<and>
   worker_event (Result ''00ab000000000000000000000000000000000000000000000000000000000000'' ''ab'' None) \<and>
   totalGenerated (main_loop \<lparr>prefix = None, suffix = None, multisig = False, count = 1, threads = 2\<rparr>
      (main_start 3 id \<lparr>prefix = None, suffix = None, multisig = False, count = 1, threads = 2\<rparr> 0 1)
      [(Progress 1000, 900), (Progress 1000, 950),
       (Result ''00ab000000000000000000000000000000000000000000000000000000000000'' ''ab'' None, 960),
       (Progress 1000, 970)]) = 2000 \<and>
   1000 * progress_count (snd (generateKey sample_digest sample_pub
      \<lparr>prefix = None, suffix = None, multisig = False\<rparr> 0 (replicate 2999 [0xab]))) = 2000"
proof -
  let ?args = "\<lparr>prefix = None, suffix = None, multisig = False, count = 1, threads = 2\<rparr>"
  let ?r = "Result ''00ab000000000000000000000000000000000000000000000000000000000000'' ''ab'' None"
  let ?evs = "[(Progress 1000, 900), (Progress 1000, 950), (?r, 960), (Progress 1000, 970 :: int)]"
  have "?r \<in> set (snd (generateKey_pass sample_digest sample_pub
      \<lparr>prefix = None, suffix = None, multisig = False\<rparr> 0 [0xab]))"
    by code_simp
  then have r: "worker_event ?r" by (rule worker_event_pass)
  with worker_event_progress have w: "\<forall>e \<in> set ?evs. worker_event (fst e)" by simp
  have h: "handled ?args (main_start 3 id ?args 0 1) ?evs =
      [(Progress 1000, 900), (Progress 1000, 950), (?r, 960)]"
    by (simp add: main_start_def on_result_def on_progress_def print_def Let_def)
  have p: "progress_count (map fst [(Progress 1000, 900), (Progress 1000, 950), (?r, 960 :: int)]) = 2"
    by (simp add: progress_count_def)
  have k: "length (replicate 2999 [0xab :: byte]) - length (replicate 2999 [0xab :: byte]) mod 1000 = 2000"
    by simp
  show ?thesis
    using r worker_event_progress
      totalGenerated_thousands [OF w, of ?args 3 id 0 1 sample_digest sample_pub
        "\<lparr>prefix = None, suffix = None, multisig = False\<rparr>" "replicate 2999 [0xab]"]
    unfolding h p k by (simp del: main_loop.simps handled.simps)
qed

section \<open>The estimate: properties\<close>

text \<open>
  C6, as the code has it. Let \<open>L\<close> be the double that \<^verbatim>\<open>-Math.log(0.05)\<close> evaluates to,
  within \<open>10\<^sup>-\<^sup>6\<close> of the real logarithm. The estimate is the text for "instant" exactly
  when neither a prefix nor a suffix is given (an empty string counts as not given).
  Otherwise the attempts needed are the ceiling of \<open>L\<close> divided by \<open>16\<close> to the minus
  number of characters of prefix and suffix together, as long as that number is at most
  255, and \<^verbatim>\<open>Infinity\<close> beyond. For a prefix of length 4 and no suffix the attempts
  needed are 196329, which is the ceiling of \<open>- ln 0.05 / 16\<^sup>-\<^sup>4\<close>.
\<close>

theorem calculateEstimate_attempts:
  assumes "\<bar>L - (- ln (5 / 100))\<bar> \<le> 1 / 10 ^ 6"
  shows
  "(calculateEstimate L per_rate p s = Should_be_instant) =
     (\<not> truthy p \<and> \<not> truthy s) \<and>
   (matchNeeded p s \<le> 255 \<longrightarrow>
     attemptsNeeded L p s = Fin (of_int \<lceil>L / (1 / 16 ^ matchNeeded p s)\<rceil>)) \<and>
   (255 < matchNeeded p s \<longrightarrow> attemptsNeeded L p s = PosInf) \<and>
   (length q = 4 \<longrightarrow>
     attemptsNeeded L (Some q) None = Fin 196329 \<and>
     \<lceil>- ln (5 / 100 :: real) / (1 / 16 ^ 4)\<rceil> = 196329)"
proof -
  from assms have close: "\<bar>L - ln 20\<bar> \<le> 1 / 10 ^ 6" by (simp only: neg_ln_005)
  have "(1 / 10 ^ 6 :: real) = 1 / 1000000" by simp
  with close ln20_bounds have pos: "0 < L" by linarith
  have 1: "(calculateEstimate L per_rate p s = Should_be_instant) =
     (\<not> truthy p \<and> \<not> truthy s)"
    by (simp add: calculateEstimate_def)
  have 2: "attemptsNeeded L p s = Fin (of_int \<lceil>L / (1 / 16 ^ matchNeeded p s)\<rceil>)"
    if "matchNeeded p s \<le> 255"
    using that by (rule attemptsNeeded_finite)
  have 3: "attemptsNeeded L p s = PosInf" if "255 < matchNeeded p s"
    using pos that by (rule attemptsNeeded_infinite)
  have 4: "attemptsNeeded L (Some q) None = Fin 196329" if "length q = 4"
  proof -
    from that have m: "matchNeeded (Some q) None = 4"
      by (simp add: matchNeeded_def optional_length_def)
    then have "attemptsNeeded L (Some q) None = Fin (of_int \<lceil>L / (1 / 16 ^ 4)\<rceil>)"
      using attemptsNeeded_finite [of "Some q" None L] by simp
    then show ?thesis by (simp only: ceiling_four_digits [OF close]) simp
  qed
  from 1 2 3 4 ceiling_ln show ?thesis by blast
qed

theorem calculateEstimate_attempts_witness:
  "\<bar>6745789375439761 / 2251799813685248 - (- ln (5 / 100))\<bar> \<le> (1 / 10 ^ 6 :: real) \<and>
   calculateEstimate (6745789375439761 / 2251799813685248) id None (Some []) = Should_be_instant \<and>
   calculateEstimate (6745789375439761 / 2251799813685248) id (Some ''00ab'') None \<noteq> Should_be_instant \<and>
   attemptsNeeded (6745789375439761 / 2251799813685248) (Some ''00ab'') None = Fin 196329 \<and>
   attemptsNeeded (6745789375439761 / 2251799813685248) (Some ''0'') (Some ''f'') = Fin 767"
proof -
  have c: "\<bar>6745789375439761 / 2251799813685248 - (- ln (5 / 100))\<bar> \<le> (1 / 10 ^ 6 :: real)"
    unfolding neg_ln_005 by (rule runtime_log_close)
  have m: "matchNeeded (Some ''0'') (Some ''f'') = 2"
    by (simp add: matchNeeded_def optional_length_def)
  have v: "\<lceil>(6745789375439761 / 2251799813685248 :: real) / (1 / 16 ^ 2)\<rceil> = 767"
    by (simp add: ceiling_unique)
  show ?thesis
    using c m v
      calculateEstimate_attempts [OF c, of id None "Some []" "''00ab''"]
      calculateEstimate_attempts [OF c, of id "Some ''00ab''" None "''00ab''"]
      calculateEstimate_attempts [OF c, of id "Some ''0''" "Some ''f''" "''00ab''"]
    by simp
qed

text \<open>
  C6 as stated fails. In its figure: the attempts needed for a prefix of length 4 are
  196329, which is 4848 more than 191481. In its formula, read with the real logarithm
  and for every length: the double that \<^verbatim>\<open>-Math.log(0.05)\<close> evaluates to lies below the
  logarithm, so that for 13 characters the code computes 13491578750879522 where the
  ceiling of \<open>- ln 0.05 / 16\<^sup>-\<^sup>1\<^sup>3\<close> is 13491578750879523, and for 256 characters the code
  computes \<^verbatim>\<open>Infinity\<close>.
\<close>

theorem calculateEstimate_attempts_counterexample:
  "attemptsNeeded (6745789375439761 / 2251799813685248) (Some ''00ab'') None = Fin 196329 \<and>
   \<lceil>- ln (5 / 100 :: real) / (1 / 16 ^ 4)\<rceil> = 196329 \<and>
   \<lceil>- ln (5 / 100 :: real) / (1 / 16 ^ 4)\<rceil> - 191481 = 4848 \<and>
   6745789375439761 / 2251799813685248 < - ln (5 / 100 :: real) \<and>
   attemptsNeeded (6745789375439761 / 2251799813685248) (Some ''0123456789abc'') None =
     Fin 13491578750879522 \<and>
   \<lceil>- ln (5 / 100 :: real) / (1 / 16 ^ 13)\<rceil> = 13491578750879523 \<and>
   attemptsNeeded (6745789375439761 / 2251799813685248) (Some (replicate 256 (CHR ''0''))) None =
     PosInf"
proof -
  have m: "matchNeeded (Some ''00ab'') None = 4"
    by (simp add: matchNeeded_def optional_length_def)
  have "attemptsNeeded (6745789375439761 / 2251799813685248) (Some ''00ab'') None =
      Fin (of_int \<lceil>(6745789375439761 / 2251799813685248 :: real) / (1 / 16 ^ 4)\<rceil>)"
    using attemptsNeeded_finite [of "Some ''00ab''" None] m by simp
  then have 1: "attemptsNeeded (6745789375439761 / 2251799813685248) (Some ''00ab'') None = Fin 196329"
    by (simp only: ceiling_four_digits [OF runtime_log_close]) simp
  have 2: "6745789375439761 / 2251799813685248 < - ln (5 / 100 :: real)"
    unfolding neg_ln_005 by (rule ln20_runtime)
  from 1 2 ceiling_ln ceiling_ln_13 attempts_13 attempts_256 show ?thesis by simp
qed

end
